theory Spec2Isabelle
  imports Complex_Main "HOL-Library.Sublist"
begin

section \<open>Data model\<close>

text \<open>
  The program is the class \<open>Similarity\<close> of \<open>server/similarity_functions/similarity.py\<close>.
  A verse is a Python dict read from the corpus file; the fields the code reads or writes are
  \<open>verse\<close> (the reference string), \<open>verse_number\<close>, \<open>text\<close>, and the two fields added
  during the build, \<open>tokenized_text\<close> and \<open>vector\<close>. A key that is absent from the dict is
  \<open>None\<close> here. Floating-point numbers are idealised as reals.
\<close>

datatype error = ValueError string | IndexError | KeyError | AssertionError

record passage =
  verse :: string
  verse_number :: string
  verse_text :: string
  tokenized_text :: "string list option"
  vector :: "real list option"

text \<open>The attributes of a \<open>Similarity\<close> object that the query reads.\<close>

record similarity =
  verse_data :: "passage list"
  bible_verses :: "passage list"
  sim_matrix :: "real list list"

definition MAX_LEN :: nat where
  "MAX_LEN = 24"

section \<open>The query: \<open>get_similar_values\<close>\<close>

text \<open>
  Lines 174-178: the first index whose \<open>verse\<close> field equals the reference;
  \<open>proper_index\<close> stays \<open>None\<close> when no passage matches.
\<close>

fun find_proper_index :: "passage list \<Rightarrow> string \<Rightarrow> nat \<Rightarrow> nat option" where
  "find_proper_index [] v index = None"
| "find_proper_index (p # rest) v index =
     (if verse p = v then Some index else find_proper_index rest v (Suc index))"

text \<open>
  \<open>np.argsort\<close> belongs to numpy, not to the sources, and is a parameter of the query. What
  numpy promises of it: the result lists every position of the array exactly once, in ascending
  order of the values. Its default sort is not stable, so nothing is promised about the order
  of positions that hold equal values.
\<close>

definition is_argsort_of :: "real list \<Rightarrow> nat list \<Rightarrow> bool" where
  "is_argsort_of xs idxs \<longleftrightarrow>
     distinct idxs \<and> set idxs = {0..<length xs} \<and> sorted (map (\<lambda>i. xs ! i) idxs)"

definition argsort_contract :: "(real list \<Rightarrow> nat list) \<Rightarrow> bool" where
  "argsort_contract argsort \<longleftrightarrow> (\<forall>xs. is_argsort_of xs (argsort xs))"

text \<open>The Python slice \<open>xs[:k]\<close>; a negative \<open>k\<close> counts from the end.\<close>

definition slice_upto :: "int \<Rightarrow> 'a list \<Rightarrow> 'a list" where
  "slice_upto k xs =
     (if k < 0 then take (nat (int (length xs) + k)) xs else take (nat k) xs)"

text \<open>Line 181: \<open>list(reversed(np.argsort(sim_text)))[:total_values]\<close>.\<close>

definition final_indices :: "(real list \<Rightarrow> nat list) \<Rightarrow> real list \<Rightarrow> int \<Rightarrow> nat list" where
  "final_indices argsort sim_text total_values =
     slice_upto total_values (rev (argsort sim_text))"

text \<open>Lines 182-183: \<open>self.bible_verses[i]\<close> for each ranked index, \<open>IndexError\<close> out of range.\<close>

fun lookup_verses :: "passage list \<Rightarrow> nat list \<Rightarrow> error + passage list" where
  "lookup_verses bv [] = Inr []"
| "lookup_verses bv (i # rest) =
     (if i < length bv
      then (case lookup_verses bv rest of Inl e \<Rightarrow> Inl e | Inr ps \<Rightarrow> Inr (bv ! i # ps))
      else Inl IndexError)"

text \<open>
  Lines 174-184. When no passage matches, \<open>proper_index\<close> is \<open>None\<close> and
  \<open>self.sim_matrix[None]\<close> is numpy's new-axis indexing: an array of shape \<open>(1, n, n)\<close>, whose
  slice \<open>[1:]\<close> has shape \<open>(0, n, n)\<close>; \<open>argsort\<close> keeps that shape, \<open>reversed\<close> iterates over
  its zero leading entries, and the function returns the empty list. Otherwise the row is read
  (\<open>IndexError\<close> past the last row) and its first column is dropped by \<open>[1:]\<close>.
\<close>

definition get_similar_values ::
  "(real list \<Rightarrow> nat list) \<Rightarrow> similarity \<Rightarrow> string \<Rightarrow> int \<Rightarrow> error + passage list" where
  "get_similar_values argsort st v total_values =
     (case find_proper_index (verse_data st) v 0 of
        None \<Rightarrow> Inr []
      | Some proper_index \<Rightarrow>
          if proper_index < length (sim_matrix st)
          then lookup_verses (bible_verses st)
                 (final_indices argsort (drop 1 (sim_matrix st ! proper_index)) total_values)
          else Inl IndexError)"

text \<open>
  The shape the constructor gives the three attributes: both collections have one entry per
  corpus passage and the matrix is square of that size.
\<close>

definition well_formed :: "similarity \<Rightarrow> bool" where
  "well_formed st \<longleftrightarrow>
     length (bible_verses st) = length (verse_data st) \<and>
     length (sim_matrix st) = length (verse_data st) \<and>
     (\<forall>row\<in>set (sim_matrix st). length row = length (verse_data st))"

section \<open>Preprocessing: \<open>tokenize_data\<close>\<close>

text \<open>\<open>string.punctuation\<close>: the ASCII characters 33-47, 58-64, 91-96 and 123-126.\<close>

definition exclude :: "char set" where
  "exclude = set (map char_of ([33..<48] @ [58..<65] @ [91..<97] @ [123..<127] :: nat list))"

text \<open>Python's \<open>sub in s\<close> on strings.\<close>

fun contains :: "string \<Rightarrow> string \<Rightarrow> bool" where
  "contains sub [] = (sub = [])"
| "contains sub (c # cs) = (prefix sub (c # cs) \<or> contains sub cs)"

text \<open>
  Python's \<open>s.replace(old, new)\<close> for a non-empty \<open>old\<close> (the only use, line 93): the
  occurrences are found from the left and do not overlap.
\<close>

function replace :: "string \<Rightarrow> string \<Rightarrow> string \<Rightarrow> string" where
  "replace old new s =
     (if old \<noteq> [] \<and> prefix old s then new @ replace old new (drop (length old) s)
      else (case s of [] \<Rightarrow> [] | c # cs \<Rightarrow> c # replace old new cs))"
  by pat_completeness auto
termination
  by (relation "measure (\<lambda>(old, new, s). length s)") (auto simp: prefix_def)

declare replace.simps [simp del]

text \<open>Lines 89-94: the stopword filter and the substitution of \<open>Yahweh\<close>.\<close>

fun filter_tokens :: "string set \<Rightarrow> string list \<Rightarrow> string list" where
  "filter_tokens stopwords_list [] = []"
| "filter_tokens stopwords_list (val # rest) =
     (if val \<notin> stopwords_list
      then (if contains ''Yahweh'' val then replace ''Yahweh'' ''God'' val else val)
             # filter_tokens stopwords_list rest
      else filter_tokens stopwords_list rest)"

text \<open>
  Lines 85-96 for one verse. \<open>word_tokenize\<close> is nltk's tokenizer and \<open>stopwords_list\<close> nltk's
  English stopword set; both are parameters.
\<close>

definition tokenize_verse :: "(string \<Rightarrow> string list) \<Rightarrow> string set \<Rightarrow> passage \<Rightarrow> passage" where
  "tokenize_verse word_tokenize stopwords_list p =
     p\<lparr>tokenized_text :=
         Some (filter_tokens stopwords_list
                 (word_tokenize (filter (\<lambda>ch. ch \<notin> exclude) (verse_text p))))\<rparr>"

definition tokenize_data ::
  "(string \<Rightarrow> string list) \<Rightarrow> string set \<Rightarrow> passage list \<Rightarrow> passage list" where
  "tokenize_data word_tokenize stopwords_list vd = map (tokenize_verse word_tokenize stopwords_list) vd"

section \<open>Vectors: \<open>get_glove_vector\<close> and \<open>convert_to_glove_vectors\<close>\<close>

text \<open>The embedding table \<open>self.glove_words\<close>, indexed by word.\<close>

type_synonym glove_table = "string \<rightharpoonup> real list"

text \<open>Lines 146-150: the row of the word, or \<open>ValueError\<close> when the table has no such row.\<close>

definition get_glove_vector :: "glove_table \<Rightarrow> string \<Rightarrow> error + real list" where
  "get_glove_vector glove_words word =
     (case glove_words word of
        Some v \<Rightarrow> Inr v
      | None \<Rightarrow> Inl (ValueError (word @ '' was not found in the glove embeddings.'')))"

text \<open>
  Lines 121-125: the loop over the words, with the vector built so far. \<open>except ValueError\<close>
  catches that error only; any other would leave the loop.
\<close>

fun append_words :: "glove_table \<Rightarrow> real list \<Rightarrow> string list \<Rightarrow> error + real list" where
  "append_words glove_words vec [] = Inr vec"
| "append_words glove_words vec (word # rest) =
     (case get_glove_vector glove_words word of
        Inr v \<Rightarrow> append_words glove_words (vec @ v) rest
      | Inl (ValueError msg) \<Rightarrow> append_words glove_words (vec @ replicate 200 0) rest
      | Inl e \<Rightarrow> Inl e)"

text \<open>What one word contributes to the vector in that loop.\<close>

definition token_vector :: "glove_table \<Rightarrow> string \<Rightarrow> real list" where
  "token_vector glove_words word =
     (case get_glove_vector glove_words word of Inr v \<Rightarrow> v | Inl e \<Rightarrow> replicate 200 0)"

text \<open>Lines 120-129 for one verse; reading \<open>verse['tokenized_text']\<close> needs the key.\<close>

definition convert_verse :: "glove_table \<Rightarrow> passage \<Rightarrow> error + passage" where
  "convert_verse glove_words p =
     (case tokenized_text p of
        None \<Rightarrow> Inl KeyError
      | Some toks \<Rightarrow>
          (case append_words glove_words [] (take MAX_LEN toks) of
             Inl e \<Rightarrow> Inl e
           | Inr vec \<Rightarrow>
               Inr (p\<lparr>vector :=
                     Some (if length vec < MAX_LEN * 200
                           then vec @ replicate (MAX_LEN * 200 - length vec) 0
                           else vec)\<rparr>)))"

fun convert_to_glove_vectors :: "glove_table \<Rightarrow> passage list \<Rightarrow> error + passage list" where
  "convert_to_glove_vectors glove_words [] = Inr []"
| "convert_to_glove_vectors glove_words (p # rest) =
     (case convert_verse glove_words p of
        Inl e \<Rightarrow> Inl e
      | Inr p' \<Rightarrow>
          (case convert_to_glove_vectors glove_words rest of
             Inl e \<Rightarrow> Inl e
           | Inr ps \<Rightarrow> Inr (p' # ps)))"

section \<open>The build: \<open>__init__\<close>\<close>

text \<open>
  Line 74 calls \<open>cosine_similarity\<close> of scikit-learn, which is not part of the sources. The
  four definitions below follow the build contract of the specification.
\<close>

text \<open>Modelled from the spec: \<open>dot(vi, vj)\<close>, the inner product used by \<open>cosine_similarity\<close>.\<close>

definition dot :: "real list \<Rightarrow> real list \<Rightarrow> real" where
  "dot u v = sum_list (map2 (*) u v)"

text \<open>Modelled from the spec: the norm \<open>\<parallel>v\<parallel>\<close> used by \<open>cosine_similarity\<close>.\<close>

definition norm2 :: "real list \<Rightarrow> real" where
  "norm2 u = sqrt (dot u u)"

text \<open>
  Modelled from the spec: one entry of \<open>cosine_similarity\<close>,
  \<open>dot(vi, vj) / (\<parallel>vi\<parallel> \<sdot> \<parallel>vj\<parallel>)\<close>, and 0 when one of the two vectors is zero.
\<close>

definition cosine :: "real list \<Rightarrow> real list \<Rightarrow> real" where
  "cosine u v = (if norm2 u = 0 \<or> norm2 v = 0 then 0 else dot u v / (norm2 u * norm2 v))"

text \<open>
  Modelled from the spec: \<open>cosine_similarity\<close>, the \<open>n \<times> n\<close> matrix of the entries above for
  \<open>n\<close> vectors of one length. The library raises \<open>ValueError\<close> on an input that is empty or
  whose rows differ in length.
\<close>

definition cosine_similarity :: "real list list \<Rightarrow> error + real list list" where
  "cosine_similarity X =
     (case X of
        [] \<Rightarrow> Inl (ValueError ''Found array with 0 sample(s)'')
      | x0 # _ \<Rightarrow>
          if list_all (\<lambda>v. length v = length x0) X
          then Inr (map (\<lambda>u. map (\<lambda>v. cosine u v) X) X)
          else Inl (ValueError ''setting an array element with a sequence.''))"

text \<open>
  The corpus file after \<open>json.load\<close>: books, each with chapters under \<open>data\<close>, each with the
  verse dicts under \<open>verses\<close>.
\<close>

record bible_chapter =
  verses :: "passage list"

record bible_book =
  data :: "bible_chapter list"

text \<open>
  What the constructor reads from outside: the two \<open>_check_file\<close> results, the parsed corpus
  and embedding table, and nltk's stopword set and tokenizer.
\<close>

record environment =
  bible_file_ok :: bool
  bible_data :: "bible_book list"
  glove_file_ok :: bool
  glove_words :: glove_table
  stopwords_list :: "string set"
  word_tokenize :: "string \<Rightarrow> string list"

text \<open>Lines 44-47.\<close>

definition flatten_verses :: "bible_book list \<Rightarrow> passage list" where
  "flatten_verses bd = concat (map (\<lambda>book. concat (map verses (data book))) bd)"

text \<open>The keys of a verse dict.\<close>

definition keys :: "passage \<Rightarrow> string set" where
  "keys p =
     {''verse'', ''verse_number'', ''text''}
     \<union> (case tokenized_text p of None \<Rightarrow> {} | Some _ \<Rightarrow> {''tokenized_text''})
     \<union> (case vector p of None \<Rightarrow> {} | Some _ \<Rightarrow> {''vector''})"

text \<open>
  Lines 69 and 72: \<open>assert self.verse_data[0].keys() != self.bible_verses[0].keys()\<close>; the
  result is the exception raised, if any.
\<close>

definition assert_keys_differ :: "passage list \<Rightarrow> passage list \<Rightarrow> error option" where
  "assert_keys_differ vd bv =
     (case vd of
        [] \<Rightarrow> Some IndexError
      | v0 # _ \<Rightarrow>
          (case bv of
             [] \<Rightarrow> Some IndexError
           | b0 # _ \<Rightarrow> if keys v0 \<noteq> keys b0 then None else Some AssertionError))"

text \<open>Line 75: \<open>[verse['vector'] for verse in self.verse_data]\<close>.\<close>

fun vectors_of :: "passage list \<Rightarrow> error + real list list" where
  "vectors_of [] = Inr []"
| "vectors_of (p # rest) =
     (case vector p of
        None \<Rightarrow> Inl KeyError
      | Some v \<Rightarrow> (case vectors_of rest of Inl e \<Rightarrow> Inl e | Inr vs \<Rightarrow> Inr (v # vs)))"

text \<open>
  Lines 36-75. In testing mode \<open>bible_verses\<close> is the same list as \<open>verse_data\<close> and the matrix
  is all zeros. Otherwise \<open>bible_verses\<close> is a deep copy taken before \<open>tokenize_data\<close> and
  \<open>convert_to_glove_vectors\<close> update the dicts of \<open>verse_data\<close> in place, so it keeps the
  verses as they were read.
\<close>

definition Similarity_init :: "environment \<Rightarrow> bool \<Rightarrow> error + similarity" where
  "Similarity_init env testing =
     (if \<not> bible_file_ok env then Inl (ValueError ''Please enter a proper bible .json file'')
      else
        let vd = flatten_verses (bible_data env) in
        if testing
        then Inr \<lparr>verse_data = vd, bible_verses = vd,
                  sim_matrix = replicate (length vd) (replicate (length vd) 0)\<rparr>
        else if \<not> glove_file_ok env
        then Inl (ValueError ''Please enter a proper glove .txt file'')
        else
          let bv = vd;
              tokenized = tokenize_data (word_tokenize env) (stopwords_list env) vd
          in (case assert_keys_differ tokenized bv of
                Some e \<Rightarrow> Inl e
              | None \<Rightarrow>
                  (case convert_to_glove_vectors (glove_words env) tokenized of
                     Inl e \<Rightarrow> Inl e
                   | Inr converted \<Rightarrow>
                       (case assert_keys_differ converted bv of
                          Some e \<Rightarrow> Inl e
                        | None \<Rightarrow>
                            (case vectors_of converted of
                               Inl e \<Rightarrow> Inl e
                             | Inr X \<Rightarrow>
                                 (case cosine_similarity X of
                                    Inl e \<Rightarrow> Inl e
                                  | Inr m \<Rightarrow>
                                      Inr \<lparr>verse_data = converted, bible_verses = bv,
                                           sim_matrix = m\<rparr>))))))"

section \<open>A small index\<close>

definition mk_passage :: "string \<Rightarrow> string \<Rightarrow> string \<Rightarrow> passage" where
  "mk_passage r n t =
     \<lparr>verse = r, verse_number = n, verse_text = t, tokenized_text = None, vector = None\<rparr>"

definition example_verses :: "passage list" where
  "example_verses =
     [mk_passage ''Genesis 1:1'' ''1'' ''In the beginning God created the heavens and the earth.'',
      mk_passage ''Genesis 1:2'' ''2'' ''The earth was formless and empty.'',
      mk_passage ''Exodus 2:3'' ''3'' ''She took a papyrus basket for him.'',
      mk_passage ''John 1:1'' ''1'' ''In the beginning was the Word.'']"

definition example_index :: similarity where
  "example_index =
     \<lparr>verse_data = example_verses, bible_verses = example_verses,
      sim_matrix = [[1, 9/10, 1/5, 1/2],
                    [9/10, 1, 1/5, 1/2],
                    [1/5, 1/5, 1, 1/2],
                    [1/2, 1/2, 1/2, 1]]\<rparr>"

text \<open>
  An index of three passages in which the first two are equally similar to the third.
\<close>

definition tie_index :: similarity where
  "tie_index =
     \<lparr>verse_data = take 3 example_verses, bible_verses = take 3 example_verses,
      sim_matrix = [[1, 9/10, 1/2],
                    [9/10, 1, 1/2],
                    [1/2, 1/2, 1]]\<rparr>"

text \<open>
  One function that meets the promise of \<open>np.argsort\<close>: insertion sort of the positions by
  value. Where the values are pairwise different, every such function returns the same list.
\<close>

definition insertion_argsort :: "real list \<Rightarrow> nat list" where
  "insertion_argsort xs = map snd (sort_key fst (zip xs [0..<length xs]))"

text \<open>An embedding table with two words.\<close>

definition example_glove :: glove_table where
  "example_glove = [''God'' \<mapsto> replicate 200 (1/10), ''earth'' \<mapsto> replicate 200 (1/5)]"

text \<open>A corpus file of three books holding the four verses, with that table.\<close>

definition example_env :: environment where
  "example_env =
     \<lparr>bible_file_ok = True,
      bible_data =
        [\<lparr>data = [\<lparr>verses = take 2 example_verses\<rparr>]\<rparr>,
         \<lparr>data = [\<lparr>verses = [example_verses ! 2]\<rparr>]\<rparr>,
         \<lparr>data = [\<lparr>verses = []\<rparr>, \<lparr>verses = [example_verses ! 3]\<rparr>]\<rparr>],
      glove_file_ok = True,
      glove_words = example_glove,
      stopwords_list = {''the'', ''in'', ''was'', ''and''},
      word_tokenize = (\<lambda>s. [s])\<rparr>"

text \<open>
  A second corpus, of three verses, with a tokenizer that splits the text at spaces (what
  \<open>word_tokenize\<close> does on text without punctuation) and a few lower-case stopwords.
\<close>

fun split_words_acc :: "string \<Rightarrow> string \<Rightarrow> string list" where
  "split_words_acc acc [] = (if acc = [] then [] else [acc])"
| "split_words_acc acc (c # cs) =
     (if c = CHR '' '' then (if acc = [] then [] else [acc]) @ split_words_acc [] cs
      else split_words_acc (acc @ [c]) cs)"

definition split_words :: "string \<Rightarrow> string list" where
  "split_words s = split_words_acc [] s"

definition psalm_verses :: "passage list" where
  "psalm_verses =
     [mk_passage ''Psalm 100:3'' ''3'' ''Yahweh made the earth.'',
      mk_passage ''Psalm 23:1'' ''1'' ''God is my shepherd,'',
      mk_passage ''Psalm 1:1'' ''1'' ''I like apples.'']"

definition psalm_env :: environment where
  "psalm_env =
     \<lparr>bible_file_ok = True,
      bible_data = [\<lparr>data = [\<lparr>verses = take 1 psalm_verses\<rparr>, \<lparr>verses = drop 1 psalm_verses\<rparr>]\<rparr>],
      glove_file_ok = True,
      glove_words = example_glove,
      stopwords_list = {''is'', ''my'', ''the'', ''i''},
      word_tokenize = split_words\<rparr>"

section \<open>Properties of the query\<close>

lemma find_proper_index_Some:
  "find_proper_index ps v k = Some i \<Longrightarrow> k \<le> i \<and> i - k < length ps \<and> verse (ps ! (i - k)) = v"
proof (induction ps arbitrary: k)
  case Nil
  then show ?case by simp
next
  case (Cons p ps)
  show ?case
  proof (cases "verse p = v")
    case True
    with Cons.prems show ?thesis by simp
  next
    case False
    with Cons.prems have "find_proper_index ps v (Suc k) = Some i" by simp
    from Cons.IH[OF this] have "Suc k \<le> i" "i - Suc k < length ps" "verse (ps ! (i - Suc k)) = v"
      by simp_all
    moreover from \<open>Suc k \<le> i\<close> have "i - k = Suc (i - Suc k)" by simp
    ultimately show ?thesis by simp
  qed
qed

lemma find_proper_index_None:
  "(find_proper_index ps v k = None) = (\<forall>p\<in>set ps. verse p \<noteq> v)"
  by (induction ps arbitrary: k) auto

lemma map_snd_zip_upt: "map snd (zip xs [0..<length xs]) = [0..<length xs]"
  by (rule map_snd_zip) simp

lemma insertion_argsort_contract: "argsort_contract insertion_argsort"
proof -
  have "is_argsort_of xs (insertion_argsort xs)" for xs
  proof -
    let ?zs = "zip xs [0..<length xs]"
    have snd_zs: "map snd ?zs = [0..<length xs]" by (rule map_snd_zip_upt)
    have "set (insertion_argsort xs) = snd ` set ?zs"
      by (simp add: insertion_argsort_def)
    also have "\<dots> = set (map snd ?zs)" by (simp only: set_map)
    finally have s: "set (insertion_argsort xs) = {0..<length xs}"
      by (simp only: snd_zs set_upt)
    have "length (insertion_argsort xs) = length xs"
      by (simp add: insertion_argsort_def)
    with s have "card (set (insertion_argsort xs)) = length (insertion_argsort xs)"
      by simp
    then have d: "distinct (insertion_argsort xs)" by (rule card_distinct)
    have eq: "\<forall>z\<in>set ?zs. xs ! snd z = fst z"
      by (auto simp: set_zip)
    have "map (\<lambda>i. xs ! i) (insertion_argsort xs) = map (\<lambda>z. xs ! snd z) (sort_key fst ?zs)"
      by (simp add: insertion_argsort_def comp_def)
    also have "\<dots> = map fst (sort_key fst ?zs)"
      using eq by (intro map_cong) auto
    finally have "sorted (map (\<lambda>i. xs ! i) (insertion_argsort xs))" by simp
    with d s show ?thesis by (simp add: is_argsort_of_def)
  qed
  then show ?thesis by (simp add: argsort_contract_def)
qed

lemma argsort_facts:
  assumes "argsort_contract argsort"
  shows "distinct (argsort xs)" and "set (argsort xs) = {0..<length xs}"
    and "sorted (map (\<lambda>i. xs ! i) (argsort xs))" and "length (argsort xs) = length xs"
proof -
  from assms have a: "is_argsort_of xs (argsort xs)" by (simp add: argsort_contract_def)
  then show d: "distinct (argsort xs)" and s: "set (argsort xs) = {0..<length xs}"
    and "sorted (map (\<lambda>i. xs ! i) (argsort xs))"
    by (simp_all add: is_argsort_of_def)
  from distinct_card[OF d] s show "length (argsort xs) = length xs" by simp
qed

text \<open>Where no two values are equal, the promise determines the result.\<close>

lemma is_argsort_of_unique:
  assumes a: "is_argsort_of xs idxs" and b: "is_argsort_of xs idxs'" and d: "distinct xs"
  shows "idxs = idxs'"
proof -
  from a b have sets: "set idxs = {0..<length xs}" "set idxs' = {0..<length xs}"
    by (simp_all add: is_argsort_of_def)
  from d have inj: "inj_on (\<lambda>i. xs ! i) {0..<length xs}"
    by (intro inj_on_nth) simp_all
  from a inj sets have "distinct (map (\<lambda>i. xs ! i) idxs)"
    by (simp add: is_argsort_of_def distinct_map)
  moreover from b inj sets have "distinct (map (\<lambda>i. xs ! i) idxs')"
    by (simp add: is_argsort_of_def distinct_map)
  moreover from a b have "sorted (map (\<lambda>i. xs ! i) idxs)" "sorted (map (\<lambda>i. xs ! i) idxs')"
    by (simp_all add: is_argsort_of_def)
  moreover from sets have "set (map (\<lambda>i. xs ! i) idxs) = set (map (\<lambda>i. xs ! i) idxs')"
    by simp
  ultimately have "map (\<lambda>i. xs ! i) idxs = map (\<lambda>i. xs ! i) idxs'"
    by (intro sorted_distinct_set_unique)
  moreover from inj sets have "inj_on (\<lambda>i. xs ! i) (set idxs \<union> set idxs')" by simp
  ultimately show ?thesis by (simp add: inj_on_map_eq_map)
qed

lemma argsort_distinct_values:
  assumes "argsort_contract argsort" and "distinct xs"
  shows "argsort xs = insertion_argsort xs"
proof -
  from assms(1) have "is_argsort_of xs (argsort xs)" by (simp add: argsort_contract_def)
  moreover from insertion_argsort_contract have "is_argsort_of xs (insertion_argsort xs)"
    by (simp add: argsort_contract_def)
  ultimately show ?thesis using assms(2) by (rule is_argsort_of_unique)
qed


lemma set_slice_upto: "set (slice_upto k xs) \<subseteq> set xs"
  by (auto simp: slice_upto_def dest: in_set_takeD)


lemma final_indices_bound:
  assumes "argsort_contract argsort" and "i \<in> set (final_indices argsort sim_text k)"
  shows "i < length sim_text"
  using assms(2) set_slice_upto[of k "rev (argsort sim_text)"] argsort_facts(2)[OF assms(1), of sim_text]
  by (auto simp: final_indices_def)



lemma length_final_indices:
  assumes "argsort_contract argsort" and "0 \<le> k"
  shows "length (final_indices argsort sim_text k) = min (nat k) (length sim_text)"
  using assms(2) by (simp add: final_indices_def slice_upto_def argsort_facts(4)[OF assms(1)])

lemma length_final_indices_all:
  assumes "argsort_contract argsort" and "int (length sim_text) \<le> k"
  shows "length (final_indices argsort sim_text k) = length sim_text"
proof -
  from assms(2) have "0 \<le> k" by linarith
  from length_final_indices[OF assms(1) this, of sim_text] assms(2) show ?thesis by simp
qed

lemma lookup_verses_in_range:
  "\<forall>i\<in>set idxs. i < length bv \<Longrightarrow> lookup_verses bv idxs = Inr (map (\<lambda>i. bv ! i) idxs)"
  by (induction idxs) auto

lemma in_corpus_index:
  assumes "v \<in> set (map verse (verse_data st))"
  obtains q where "find_proper_index (verse_data st) v 0 = Some q"
    and "q < length (verse_data st)" and "verse (verse_data st ! q) = v"
proof -
  from assms have "find_proper_index (verse_data st) v 0 \<noteq> None"
    by (auto simp: find_proper_index_None)
  then obtain q where q: "find_proper_index (verse_data st) v 0 = Some q" by auto
  from find_proper_index_Some[OF q] have "q < length (verse_data st)" "verse (verse_data st ! q) = v"
    by simp_all
  with q that show thesis by blast
qed

lemma get_similar_values_ranked:
  assumes c: "argsort_contract argsort"
    and wf: "well_formed st"
    and q: "find_proper_index (verse_data st) v 0 = Some q"
  shows "get_similar_values argsort st v k =
           Inr (map (\<lambda>i. bible_verses st ! i)
                  (final_indices argsort (drop 1 (sim_matrix st ! q)) k))"
    and "\<forall>i\<in>set (final_indices argsort (drop 1 (sim_matrix st ! q)) k).
           i < length (verse_data st) - 1"
    and "length (sim_matrix st ! q) = length (verse_data st)"
proof -
  let ?n = "length (verse_data st)"
  let ?row = "sim_matrix st ! q"
  from find_proper_index_Some[OF q] have qn: "q < ?n" by simp
  with wf have qm: "q < length (sim_matrix st)" by (simp add: well_formed_def)
  then have "?row \<in> set (sim_matrix st)" by simp
  with wf show len: "length ?row = ?n" by (simp add: well_formed_def)
  show bound: "\<forall>i\<in>set (final_indices argsort (drop 1 ?row) k). i < ?n - 1"
    using final_indices_bound[OF c, of _ "drop 1 ?row" k] len by auto
  from wf have "length (bible_verses st) = ?n" by (simp add: well_formed_def)
  with bound have "\<forall>i\<in>set (final_indices argsort (drop 1 ?row) k). i < length (bible_verses st)"
    by auto
  from lookup_verses_in_range[OF this] q qm
  show "get_similar_values argsort st v k =
           Inr (map (\<lambda>i. bible_verses st ! i) (final_indices argsort (drop 1 ?row) k))"
    by (simp add: get_similar_values_def)
qed

lemma well_formed_example_index: "well_formed example_index"
  by (simp add: well_formed_def example_index_def example_verses_def)

text \<open>
  C1: the top-k query should never return the queried passage itself. On the small index the
  query for the first passage returns that passage as its best match, whatever \<open>np.argsort\<close>
  does with equal values: the row loses its first column, and the ranked positions are then
  used as corpus indices without being shifted back.
\<close>

theorem get_similar_values_returns_query_itself:
  assumes "argsort_contract argsort"
  shows "get_similar_values argsort example_index ''Genesis 1:1'' 1
           = Inr [bible_verses example_index ! 0]
       \<and> verse (bible_verses example_index ! 0) = ''Genesis 1:1''"
proof -
  have "distinct [9/10, 1/5, 1/2 :: real]" by simp
  from argsort_distinct_values[OF assms this]
  have "argsort [9/10, 1/5, 1/2] = [1, 2, 0]"
    by (simp add: insertion_argsort_def upt_conv_Cons)
  then show ?thesis
    by (simp add: get_similar_values_def example_index_def example_verses_def mk_passage_def
        final_indices_def slice_upto_def)
qed

theorem get_similar_values_returns_query_itself_witness:
  "get_similar_values insertion_argsort example_index ''Genesis 1:1'' 1
     = Inr [bible_verses example_index ! 0]
   \<and> verse (bible_verses example_index ! 0) = ''Genesis 1:1''"
  by (rule get_similar_values_returns_query_itself[OF insertion_argsort_contract])

text \<open>
  C3 (as stated): a reference that matches no corpus passage should yield an error. On the small
  index such a query returns the empty list as a normal result.
\<close>

theorem unknown_passage_counterexample:
  "''Nowhere 9:9'' \<notin> set (map verse (verse_data example_index))
   \<and> get_similar_values insertion_argsort example_index ''Nowhere 9:9'' 10 = Inr []"
  by (simp add: get_similar_values_def example_index_def example_verses_def mk_passage_def)

text \<open>
  C3 (amended): for every reference that matches the \<open>verse\<close> field of no corpus passage, the query
  returns the empty result list; it raises no error of any kind.
\<close>

theorem unknown_passage_empty_result:
  assumes "v \<notin> set (map verse (verse_data st))"
  shows "get_similar_values argsort st v k = Inr []"
proof -
  from assms have "find_proper_index (verse_data st) v 0 = None"
    by (auto simp: find_proper_index_None)
  then show ?thesis by (simp add: get_similar_values_def)
qed

theorem unknown_passage_empty_result_witness:
  "get_similar_values insertion_argsort example_index ''Nowhere 9:9'' 10 = Inr []"
proof -
  have "''Nowhere 9:9'' \<notin> set (map verse (verse_data example_index))"
    by (simp add: example_index_def example_verses_def mk_passage_def)
  from unknown_passage_empty_result[OF this] show ?thesis .
qed

text \<open>
  On the index of three passages the query for the third ranks the scores \<open>1/2\<close> and \<open>1\<close>,
  which differ, so every \<open>np.argsort\<close> gives the same answer.
\<close>

lemma tie_index_any_argsort:
  assumes "argsort_contract argsort"
  shows "get_similar_values argsort tie_index ''Exodus 2:3'' 2
           = Inr [bible_verses tie_index ! 1, bible_verses tie_index ! 0]"
proof -
  have "distinct [1/2, 1 :: real]" by simp
  from argsort_distinct_values[OF assms this]
  have "argsort [1/2, 1] = [0, 1]"
    by (simp add: insertion_argsort_def upt_conv_Cons)
  then show ?thesis
    by (simp add: get_similar_values_def tie_index_def example_verses_def mk_passage_def
        final_indices_def slice_upto_def)
qed




text \<open>
  C5: for every in-corpus reference, a count k larger than n - 1 yields exactly n - 1 results, and
  no error.
\<close>

theorem large_k_returns_all_but_one:
  assumes "argsort_contract argsort"
    and "well_formed st" and "v \<in> set (map verse (verse_data st))"
    and "int (length (verse_data st)) - 1 < k"
  shows "\<exists>res. get_similar_values argsort st v k = Inr res
           \<and> length res = length (verse_data st) - 1"
proof -
  from assms(3) obtain q where q: "find_proper_index (verse_data st) v 0 = Some q"
    by (rule in_corpus_index)
  let ?row = "sim_matrix st ! q"
  note ranked = get_similar_values_ranked[OF assms(1,2) q]
  from ranked(3) have "length (drop 1 ?row) = length (verse_data st) - 1" by simp
  moreover from this assms(4) have "int (length (drop 1 ?row)) \<le> k" by linarith
  ultimately have "length (final_indices argsort (drop 1 ?row) k) = length (verse_data st) - 1"
    by (simp only: length_final_indices_all[OF assms(1)])
  with ranked(1) show ?thesis by simp
qed

theorem large_k_returns_all_but_one_witness:
  "\<exists>res. get_similar_values insertion_argsort example_index ''Exodus 2:3'' 10 = Inr res
        \<and> length res = 3"
proof -
  have mem: "''Exodus 2:3'' \<in> set (map verse (verse_data example_index))"
    by (simp add: example_index_def example_verses_def mk_passage_def)
  have k: "int (length (verse_data example_index)) - 1 < 10"
    by (simp add: example_index_def example_verses_def)
  have n: "length (verse_data example_index) - 1 = 3"
    by (simp add: example_index_def example_verses_def)
  from large_k_returns_all_but_one[OF insertion_argsort_contract well_formed_example_index mem k]
    n
  show ?thesis by simp
qed

text \<open>
  C10: for every in-corpus reference and every k, the ranked indices are computed over the row
  without its first column and index the display collection directly, so all of them are below
  n - 1; the display record of the last passage is never returned (records being distinct).
\<close>

theorem last_passage_never_returned:
  assumes "argsort_contract argsort"
    and "well_formed st" and "v \<in> set (map verse (verse_data st))"
  shows "\<exists>q idxs. find_proper_index (verse_data st) v 0 = Some q
           \<and> idxs = final_indices argsort (drop 1 (sim_matrix st ! q)) k
           \<and> get_similar_values argsort st v k = Inr (map (\<lambda>i. bible_verses st ! i) idxs)
           \<and> (\<forall>i\<in>set idxs. i < length (bible_verses st) - 1)
           \<and> (distinct (bible_verses st) \<longrightarrow>
                bible_verses st ! (length (bible_verses st) - 1)
                  \<notin> set (map (\<lambda>i. bible_verses st ! i) idxs))"
proof -
  from assms(3) obtain q where q: "find_proper_index (verse_data st) v 0 = Some q"
    by (rule in_corpus_index)
  let ?idxs = "final_indices argsort (drop 1 (sim_matrix st ! q)) k"
  let ?bv = "bible_verses st"
  from assms(2) have len: "length ?bv = length (verse_data st)" by (simp add: well_formed_def)
  have res: "get_similar_values argsort st v k = Inr (map (\<lambda>i. ?bv ! i) ?idxs)"
    by (rule get_similar_values_ranked(1)[OF assms(1,2) q])
  have bound: "\<forall>i\<in>set ?idxs. i < length ?bv - 1"
    using get_similar_values_ranked(2)[OF assms(1,2) q, of k] len by simp
  have "?bv ! (length ?bv - 1) \<notin> set (map (\<lambda>i. ?bv ! i) ?idxs)" if d: "distinct ?bv"
  proof
    assume "?bv ! (length ?bv - 1) \<in> set (map (\<lambda>i. ?bv ! i) ?idxs)"
    then obtain i where i: "i \<in> set ?idxs" and eq: "?bv ! i = ?bv ! (length ?bv - 1)" by auto
    from bound i have lt: "i < length ?bv - 1" by blast
    then have "i < length ?bv" "length ?bv - 1 < length ?bv" by simp_all
    with d eq have "i = length ?bv - 1" by (simp add: nth_eq_iff_index_eq)
    with lt show False by simp
  qed
  with q res bound show ?thesis by blast
qed

theorem last_passage_never_returned_witness:
  "\<exists>q idxs. find_proper_index (verse_data example_index) ''Genesis 1:2'' 0 = Some q
           \<and> idxs = final_indices insertion_argsort (drop 1 (sim_matrix example_index ! q)) 10
           \<and> get_similar_values insertion_argsort example_index ''Genesis 1:2'' 10
               = Inr (map (\<lambda>i. bible_verses example_index ! i) idxs)
           \<and> (\<forall>i\<in>set idxs. i < 3)
           \<and> bible_verses example_index ! 3 \<notin> set (map (\<lambda>i. bible_verses example_index ! i) idxs)"
proof -
  have mem: "''Genesis 1:2'' \<in> set (map verse (verse_data example_index))"
    by (simp add: example_index_def example_verses_def mk_passage_def)
  have d: "distinct (bible_verses example_index)"
    by (simp add: example_index_def example_verses_def mk_passage_def)
  have n: "length (bible_verses example_index) - 1 = 3"
    by (simp add: example_index_def example_verses_def)
  from last_passage_never_returned[OF insertion_argsort_contract well_formed_example_index mem,
      of 10] d n
  show ?thesis by auto
qed

section \<open>Properties of the vectors\<close>

lemma get_glove_vector_cases:
  "get_glove_vector g w = Inr v \<longleftrightarrow> g w = Some v"
  by (simp add: get_glove_vector_def split: option.splits)

lemma append_words_step:
  "append_words g vec (w # rest) = append_words g (vec @ token_vector g w) rest"
  by (simp add: token_vector_def get_glove_vector_def split: option.splits)

lemma append_words_total:
  "append_words g vec ws = Inr (vec @ concat (map (token_vector g) ws))"
proof (induction ws arbitrary: vec)
  case Nil
  show ?case by simp
next
  case (Cons w ws)
  have "append_words g vec (w # ws) = append_words g (vec @ token_vector g w) ws"
    by (rule append_words_step)
  also have "\<dots> = Inr ((vec @ token_vector g w) @ concat (map (token_vector g) ws))"
    by (rule Cons.IH)
  finally show ?case by simp
qed

lemma length_token_vector:
  assumes "\<forall>w v. g w = Some v \<longrightarrow> length v = 200"
  shows "length (token_vector g w) = 200"
  using assms by (simp add: token_vector_def get_glove_vector_def split: option.splits)

lemma length_concat_token_vectors:
  assumes "\<forall>w v. g w = Some v \<longrightarrow> length v = 200"
  shows "length (concat (map (token_vector g) ws)) = 200 * length ws"
  by (induction ws) (simp_all add: length_token_vector[OF assms])

lemma convert_verse_eq:
  assumes "tokenized_text p = Some toks"
  shows "convert_verse g p =
           Inr (p\<lparr>vector :=
                 Some (let vec = concat (map (token_vector g) (take MAX_LEN toks))
                       in if length vec < MAX_LEN * 200
                          then vec @ replicate (MAX_LEN * 200 - length vec) 0 else vec)\<rparr>)"
  using assms by (simp add: convert_verse_def append_words_total Let_def)

lemma convert_verse_shape:
  assumes table: "\<forall>w v. g w = Some v \<longrightarrow> length v = 200"
    and toks: "tokenized_text p = Some toks"
  shows "\<exists>vec. convert_verse g p = Inr (p\<lparr>vector := Some vec\<rparr>)
           \<and> length vec = MAX_LEN * 200 \<and> MAX_LEN * 200 = 4800
           \<and> vec = concat (map (token_vector g) (take MAX_LEN toks))
                    @ replicate (200 * (MAX_LEN - length toks)) 0"
proof -
  define body where "body = concat (map (token_vector g) (take MAX_LEN toks))"
  define vec where
    "vec = (if length body < MAX_LEN * 200
            then body @ replicate (MAX_LEN * 200 - length body) 0 else body)"
  have len: "length body = 200 * min (length toks) MAX_LEN"
    unfolding body_def by (simp add: length_concat_token_vectors[OF table])
  have pad: "MAX_LEN * 200 - length body = 200 * (MAX_LEN - length toks)"
    unfolding len by arith
  have conv: "convert_verse g p = Inr (p\<lparr>vector := Some vec\<rparr>)"
    unfolding vec_def body_def by (simp add: convert_verse_eq[OF toks] Let_def)
  have shape: "vec = body @ replicate (200 * (MAX_LEN - length toks)) 0"
  proof (cases "length body < MAX_LEN * 200")
    case True
    then have "vec = body @ replicate (MAX_LEN * 200 - length body) 0"
      by (simp add: vec_def)
    then show ?thesis by (simp only: pad)
  next
    case False
    then have "vec = body" by (simp add: vec_def)
    moreover from False have "200 * (MAX_LEN - length toks) = 0"
      unfolding len by arith
    ultimately show ?thesis by simp
  qed
  have "length vec = length body + 200 * (MAX_LEN - length toks)"
    unfolding shape by simp
  then have full: "length vec = MAX_LEN * 200"
    unfolding len by arith
  have "MAX_LEN * 200 = 4800" by (simp add: MAX_LEN_def)
  with conv full shape show ?thesis unfolding body_def by blast
qed

lemma convert_to_glove_vectors_shape:
  assumes table: "\<forall>w v. g w = Some v \<longrightarrow> length v = 200"
    and "\<forall>p\<in>set vd. tokenized_text p \<noteq> None"
  shows "\<exists>out. convert_to_glove_vectors g vd = Inr out
           \<and> list_all2 (\<lambda>p p'. \<exists>toks vec. tokenized_text p = Some toks
                   \<and> p' = p\<lparr>vector := Some vec\<rparr> \<and> length vec = MAX_LEN * 200
                   \<and> vec = concat (map (token_vector g) (take MAX_LEN toks))
                            @ replicate (200 * (MAX_LEN - length toks)) 0) vd out"
  using assms(2)
proof (induction vd)
  case Nil
  show ?case by simp
next
  case (Cons p vd)
  from Cons.prems obtain toks where toks: "tokenized_text p = Some toks" by auto
  from convert_verse_shape[OF table toks]
  obtain vec where "convert_verse g p = Inr (p\<lparr>vector := Some vec\<rparr>)"
    and "length vec = MAX_LEN * 200"
    and "vec = concat (map (token_vector g) (take MAX_LEN toks))
               @ replicate (200 * (MAX_LEN - length toks)) 0"
    by blast
  moreover from Cons obtain out where "convert_to_glove_vectors g vd = Inr out"
    and "list_all2 (\<lambda>p p'. \<exists>toks vec. tokenized_text p = Some toks
                   \<and> p' = p\<lparr>vector := Some vec\<rparr> \<and> length vec = MAX_LEN * 200
                   \<and> vec = concat (map (token_vector g) (take MAX_LEN toks))
                            @ replicate (200 * (MAX_LEN - length toks)) 0) vd out"
    by auto
  ultimately show ?case using toks by auto
qed

text \<open>
  C2: with an embedding table of dimension 200, \<open>convert_to_glove_vectors\<close> gives every passage a
  vector of length exactly \<open>MAX_LEN * 200 = 4800\<close>, whatever the number of its tokens: the
  concatenation of the vectors of the first \<open>MAX_LEN\<close> tokens, in order, padded on the right with
  zeros.
\<close>

theorem vector_length_fixed:
  assumes "\<forall>w v. g w = Some v \<longrightarrow> length v = 200"
    and "\<forall>p\<in>set vd. tokenized_text p \<noteq> None"
  shows "\<exists>out. convert_to_glove_vectors g vd = Inr out \<and> length out = length vd
           \<and> MAX_LEN * 200 = 4800
           \<and> (\<forall>i<length vd. \<exists>toks vec. tokenized_text (vd ! i) = Some toks
                   \<and> out ! i = (vd ! i)\<lparr>vector := Some vec\<rparr> \<and> length vec = MAX_LEN * 200
                   \<and> vec = concat (map (token_vector g) (take MAX_LEN toks))
                            @ replicate (200 * (MAX_LEN - length toks)) 0)"
proof -
  from convert_to_glove_vectors_shape[OF assms]
  obtain out where out: "convert_to_glove_vectors g vd = Inr out"
    and rel: "list_all2 (\<lambda>p p'. \<exists>toks vec. tokenized_text p = Some toks
                   \<and> p' = p\<lparr>vector := Some vec\<rparr> \<and> length vec = MAX_LEN * 200
                   \<and> vec = concat (map (token_vector g) (take MAX_LEN toks))
                            @ replicate (200 * (MAX_LEN - length toks)) 0) vd out"
    by blast
  from rel have len: "length out = length vd" by (simp add: list_all2_lengthD)
  have "MAX_LEN * 200 = 4800" by (simp add: MAX_LEN_def)
  moreover from rel have "\<forall>i<length vd. \<exists>toks vec. tokenized_text (vd ! i) = Some toks
                   \<and> out ! i = (vd ! i)\<lparr>vector := Some vec\<rparr> \<and> length vec = MAX_LEN * 200
                   \<and> vec = concat (map (token_vector g) (take MAX_LEN toks))
                            @ replicate (200 * (MAX_LEN - length toks)) 0"
    by (simp add: list_all2_conv_all_nth)
  ultimately show ?thesis using out len by blast
qed

theorem vector_length_fixed_witness:
  "\<exists>out. convert_to_glove_vectors example_glove
            [mk_passage ''Genesis 1:1'' ''1'' ''God created''
               \<lparr>tokenized_text := Some [''God'', ''created'']\<rparr>] = Inr out
       \<and> length out = 1
       \<and> (\<exists>vec. out ! 0 = mk_passage ''Genesis 1:1'' ''1'' ''God created''
                   \<lparr>tokenized_text := Some [''God'', ''created''], vector := Some vec\<rparr>
              \<and> length vec = 4800
              \<and> vec = replicate 200 (1/10) @ replicate 200 0 @ replicate 4400 0)"
proof -
  let ?p = "mk_passage ''Genesis 1:1'' ''1'' ''God created''
              \<lparr>tokenized_text := Some [''God'', ''created'']\<rparr>"
  have table: "\<forall>w v. example_glove w = Some v \<longrightarrow> length v = 200"
    by (simp add: example_glove_def)
  have toks: "\<forall>p\<in>set [?p]. tokenized_text p \<noteq> None"
    by simp
  have god: "token_vector example_glove ''God'' = replicate 200 (1/10)"
    by (simp add: token_vector_def get_glove_vector_def example_glove_def)
  have created: "token_vector example_glove ''created'' = replicate 200 0"
    by (simp add: token_vector_def get_glove_vector_def example_glove_def)
  from vector_length_fixed[OF table toks] show ?thesis
    by (simp add: MAX_LEN_def god created)
qed

lemma convert_verse_total:
  assumes "tokenized_text p = Some toks"
  shows "\<exists>vec. convert_verse g p = Inr (p\<lparr>vector := Some vec\<rparr>)"
  using convert_verse_eq[OF assms, of g] by blast

lemma convert_to_glove_vectors_total:
  assumes "\<forall>p\<in>set vd. tokenized_text p \<noteq> None"
  shows "\<exists>out. convert_to_glove_vectors g vd = Inr out"
  using assms
proof (induction vd)
  case Nil
  show ?case by simp
next
  case (Cons p vd)
  from Cons.prems obtain toks where "tokenized_text p = Some toks" by auto
  from convert_verse_total[OF this, of g]
  obtain vec where "convert_verse g p = Inr (p\<lparr>vector := Some vec\<rparr>)" by blast
  moreover from Cons obtain out where "convert_to_glove_vectors g vd = Inr out" by auto
  ultimately show ?case by simp
qed

lemma tokenize_data_populates:
  "\<forall>p\<in>set (tokenize_data tok stop vd). tokenized_text p \<noteq> None"
  by (simp add: tokenize_data_def tokenize_verse_def)

lemma convert_to_glove_vectors_nth:
  assumes "convert_to_glove_vectors g vd = Inr out"
  shows "length out = length vd"
    and "i < length vd \<Longrightarrow> convert_verse g (vd ! i) = Inr (out ! i)"
proof -
  have "length out = length vd \<and> (\<forall>i<length vd. convert_verse g (vd ! i) = Inr (out ! i))"
    using assms
  proof (induction vd arbitrary: out)
    case Nil
    then show ?case by simp
  next
    case (Cons p vd)
    from Cons.prems obtain p' ps where p': "convert_verse g p = Inr p'"
      and ps: "convert_to_glove_vectors g vd = Inr ps" and out: "out = p' # ps"
      by (auto split: sum.splits)
    from Cons.IH[OF ps] p' out show ?case by (auto simp: nth_Cons split: nat.splits)
  qed
  then show "length out = length vd"
    and "i < length vd \<Longrightarrow> convert_verse g (vd ! i) = Inr (out ! i)"
    by simp_all
qed

lemma convert_verse_missing_word:
  assumes miss: "g w = None"
    and toks: "tokenized_text p = Some (pre @ w # post)"
    and pos: "length pre < MAX_LEN"
  shows "convert_verse g p =
           Inr (p\<lparr>vector :=
                 Some ((concat (map (token_vector g) pre) @ replicate 200 0
                        @ concat (map (token_vector g) (take (MAX_LEN - Suc (length pre)) post)))
                       @ replicate
                           (MAX_LEN * 200
                            - length (concat (map (token_vector g) pre) @ replicate 200 0
                                @ concat (map (token_vector g)
                                            (take (MAX_LEN - Suc (length pre)) post))))
                           0)\<rparr>)"
proof -
  define body where "body = concat (map (token_vector g) (take MAX_LEN (pre @ w # post)))"
  from miss have zero: "token_vector g w = replicate 200 0"
    by (simp add: token_vector_def get_glove_vector_def)
  from pos obtain m where m: "MAX_LEN - length pre = Suc m" and m': "MAX_LEN - Suc (length pre) = m"
    by (cases "MAX_LEN - length pre") simp_all
  from pos have "take MAX_LEN (pre @ w # post) = pre @ w # take m post"
    by (simp add: m)
  then have body: "body = concat (map (token_vector g) pre) @ replicate 200 0
                     @ concat (map (token_vector g) (take (MAX_LEN - Suc (length pre)) post))"
    by (simp add: body_def zero m')
  have pad: "(if length body < MAX_LEN * 200
              then body @ replicate (MAX_LEN * 200 - length body) 0 else body)
             = body @ replicate (MAX_LEN * 200 - length body) 0"
    by simp
  have "convert_verse g p = Inr (p\<lparr>vector := Some (body @ replicate (MAX_LEN * 200 - length body) 0)\<rparr>)"
    using pad by (simp add: convert_verse_eq[OF toks] Let_def body_def)
  then show ?thesis by (simp only: body)
qed

text \<open>
  C6: for a word absent from the table, \<open>get_glove_vector\<close> signals \<open>ValueError\<close> and returns no
  default; the loop of \<open>convert_to_glove_vectors\<close> catches it and appends 200 zeros for that word.
  So the function returns normally, and the vector it stores for a passage with the word among
  its first \<open>MAX_LEN\<close> tokens has 200 zeros where the word stands: after the vectors of the
  tokens before it and before those of the tokens after it, with the padding at the end.
\<close>

theorem word_not_found_handled:
  assumes "g w = None"
    and "\<forall>p\<in>set vd. tokenized_text p \<noteq> None"
    and "i < length vd"
    and "tokenized_text (vd ! i) = Some (pre @ w # post)"
    and "length pre < MAX_LEN"
  shows "get_glove_vector g w = Inl (ValueError (w @ '' was not found in the glove embeddings.''))
       \<and> append_words g vec (w # rest) = append_words g (vec @ replicate 200 0) rest
       \<and> (\<exists>out. append_words g vec (w # rest) = Inr out)
       \<and> (\<exists>out. convert_to_glove_vectors g (tokenize_data tok stop corpus) = Inr out)
       \<and> (\<exists>out body.
             convert_to_glove_vectors g vd = Inr out \<and> length out = length vd
           \<and> body = concat (map (token_vector g) pre) @ replicate 200 0
                    @ concat (map (token_vector g) (take (MAX_LEN - Suc (length pre)) post))
           \<and> out ! i = (vd ! i)\<lparr>vector := Some (body @ replicate (MAX_LEN * 200 - length body) 0)\<rparr>)"
proof -
  from assms(1) have signal:
    "get_glove_vector g w = Inl (ValueError (w @ '' was not found in the glove embeddings.''))"
    by (simp add: get_glove_vector_def)
  then have step: "append_words g vec (w # rest) = append_words g (vec @ replicate 200 0) rest"
    by simp
  have loop: "\<exists>out. append_words g vec (w # rest) = Inr out"
    by (simp only: append_words_total) blast
  have all: "\<exists>out. convert_to_glove_vectors g (tokenize_data tok stop corpus) = Inr out"
    by (rule convert_to_glove_vectors_total) (rule tokenize_data_populates)
  from convert_to_glove_vectors_total[OF assms(2)]
  obtain out where out: "convert_to_glove_vectors g vd = Inr out" by blast
  from convert_to_glove_vectors_nth[OF out] assms(3)
  have len: "length out = length vd" and "convert_verse g (vd ! i) = Inr (out ! i)"
    by simp_all
  with convert_verse_missing_word[where g = g and w = w, OF assms(1,4,5)]
  have "out ! i = (vd ! i)\<lparr>vector :=
                 Some ((concat (map (token_vector g) pre) @ replicate 200 0
                        @ concat (map (token_vector g) (take (MAX_LEN - Suc (length pre)) post)))
                       @ replicate
                           (MAX_LEN * 200
                            - length (concat (map (token_vector g) pre) @ replicate 200 0
                                @ concat (map (token_vector g)
                                            (take (MAX_LEN - Suc (length pre)) post))))
                           0)\<rparr>"
    by simp
  with out len have "\<exists>out body.
             convert_to_glove_vectors g vd = Inr out \<and> length out = length vd
           \<and> body = concat (map (token_vector g) pre) @ replicate 200 0
                    @ concat (map (token_vector g) (take (MAX_LEN - Suc (length pre)) post))
           \<and> out ! i = (vd ! i)\<lparr>vector := Some (body @ replicate (MAX_LEN * 200 - length body) 0)\<rparr>"
    by blast
  with signal step loop all show ?thesis by blast
qed

theorem word_not_found_handled_witness:
  "get_glove_vector example_glove ''created''
     = Inl (ValueError ''created was not found in the glove embeddings.'')
   \<and> (\<exists>out. convert_to_glove_vectors example_glove
               [mk_passage ''Genesis 1:1'' ''1'' ''God created earth''
                  \<lparr>tokenized_text := Some [''God'', ''created'', ''earth'']\<rparr>] = Inr out
          \<and> length out = 1
          \<and> out ! 0 = mk_passage ''Genesis 1:1'' ''1'' ''God created earth''
                  \<lparr>tokenized_text := Some [''God'', ''created'', ''earth''],
                   vector := Some (replicate 200 (1/10) @ replicate 200 0
                                   @ replicate 200 (1/5) @ replicate 4200 0)\<rparr>)"
proof -
  let ?p = "mk_passage ''Genesis 1:1'' ''1'' ''God created earth''
              \<lparr>tokenized_text := Some [''God'', ''created'', ''earth'']\<rparr>"
  have none: "example_glove ''created'' = None"
    by (simp add: example_glove_def)
  have all: "\<forall>p\<in>set [?p]. tokenized_text p \<noteq> None" by simp
  have i: "0 < length [?p]" by simp
  have toks: "tokenized_text ([?p] ! 0) = Some ([''God''] @ ''created'' # [''earth''])" by simp
  have pos: "length [''God''] < MAX_LEN" by (simp add: MAX_LEN_def)
  have god: "token_vector example_glove ''God'' = replicate 200 (1/10)"
    by (simp add: token_vector_def get_glove_vector_def example_glove_def)
  have earth: "token_vector example_glove ''earth'' = replicate 200 (1/5)"
    by (simp add: token_vector_def get_glove_vector_def example_glove_def)
  from word_not_found_handled[where g = example_glove and w = "''created''" and vd = "[?p]"
      and i = 0 and pre = "[''God'']" and post = "[''earth'']", OF none all i toks pos]
  show ?thesis
    by (simp add: MAX_LEN_def god earth)
qed

subsection \<open>The substitution of \<open>Yahweh\<close>\<close>

lemma replace_Nil: "replace old new [] = []"
  by (subst replace.simps) simp

lemma replace_prefix:
  "old \<noteq> [] \<Longrightarrow> prefix old s \<Longrightarrow> replace old new s = new @ replace old new (drop (length old) s)"
  by (subst replace.simps) simp

lemma replace_Cons:
  "\<not> prefix old (c # cs) \<Longrightarrow> replace old new (c # cs) = c # replace old new cs"
  by (subst replace.simps) simp

lemma replace_Yahweh_prefix:
  assumes "prefix ''Yahweh'' s"
  shows "replace ''Yahweh'' ''God'' s = ''God'' @ replace ''Yahweh'' ''God'' (drop 6 s)"
proof -
  have l: "length ''Yahweh'' = 6" by simp
  have "''Yahweh'' \<noteq> []" by simp
  from replace_prefix[OF this assms, of "''God''"] show ?thesis by (simp only: l)
qed

lemma prefix_replace_back:
  assumes "CHR ''G'' \<notin> set u" and "prefix u (replace ''Yahweh'' ''God'' s)"
  shows "prefix u s"
  using assms
proof (induction u arbitrary: s)
  case Nil
  show ?case by simp
next
  case (Cons a u)
  show ?case
  proof (cases "prefix ''Yahweh'' s")
    case True
    then have "replace ''Yahweh'' ''God'' s = ''God'' @ replace ''Yahweh'' ''God'' (drop 6 s)"
      by (rule replace_Yahweh_prefix)
    with Cons.prems show ?thesis by simp
  next
    case False
    show ?thesis
    proof (cases s)
      case Nil
      with Cons.prems show ?thesis by (simp add: replace_Nil)
    next
      case (Cons c cs)
      with False have "replace ''Yahweh'' ''God'' s = c # replace ''Yahweh'' ''God'' cs"
        by (simp add: replace_Cons)
      with Cons.prems(2) have "a = c" "prefix u (replace ''Yahweh'' ''God'' cs)" by simp_all
      moreover from Cons.prems(1) have "CHR ''G'' \<notin> set u" by simp
      ultimately have "prefix u cs" using Cons.IH by blast
      with \<open>a = c\<close> Cons show ?thesis by simp
    qed
  qed
qed

lemma replace_God_front:
  "replace ''Yahweh'' ''God'' (CHR ''G'' # CHR ''o'' # CHR ''d'' # r)
     = CHR ''G'' # CHR ''o'' # CHR ''d'' # replace ''Yahweh'' ''God'' r"
  by (simp add: replace_Cons)

lemma replace_idem:
  "replace ''Yahweh'' ''God'' (replace ''Yahweh'' ''God'' s) = replace ''Yahweh'' ''God'' s"
proof (induction "length s" arbitrary: s rule: less_induct)
  case less
  show ?case
  proof (cases "prefix ''Yahweh'' s")
    case True
    then have "length (drop 6 s) < length s" by (auto simp: prefix_def)
    from less[OF this] True show ?thesis
      by (simp add: replace_Yahweh_prefix replace_God_front)
  next
    case False
    show ?thesis
    proof (cases s)
      case Nil
      then show ?thesis by (simp add: replace_Nil)
    next
      case (Cons c cs)
      with False have eq: "replace ''Yahweh'' ''God'' s = c # replace ''Yahweh'' ''God'' cs"
        by (simp add: replace_Cons)
      have "\<not> prefix ''Yahweh'' (c # replace ''Yahweh'' ''God'' cs)"
      proof
        assume a: "prefix ''Yahweh'' (c # replace ''Yahweh'' ''God'' cs)"
        from a[unfolded Cons_prefix_Cons]
        have c: "c = CHR ''Y''" and pre: "prefix ''ahweh'' (replace ''Yahweh'' ''God'' cs)"
          by blast+
        have "CHR ''G'' \<notin> set ''ahweh''" by simp
        from prefix_replace_back[OF this pre] have "prefix ''ahweh'' cs" .
        with c Cons False show False by simp
      qed
      then have "replace ''Yahweh'' ''God'' (c # replace ''Yahweh'' ''God'' cs)
                   = c # replace ''Yahweh'' ''God'' (replace ''Yahweh'' ''God'' cs)"
        by (rule replace_Cons)
      moreover from Cons have "length cs < length s" by simp
      ultimately show ?thesis using less eq by simp
    qed
  qed
qed

lemma contains_Yahweh_has_Y: "contains ''Yahweh'' t \<Longrightarrow> CHR ''Y'' \<in> set t"
  by (induction t) auto

lemma replace_Yahweh_has_G: "contains ''Yahweh'' t \<Longrightarrow> CHR ''G'' \<in> set (replace ''Yahweh'' ''God'' t)"
proof (induction "length t" arbitrary: t rule: less_induct)
  case less
  show ?case
  proof (cases "prefix ''Yahweh'' t")
    case True
    then show ?thesis by (simp add: replace_Yahweh_prefix)
  next
    case False
    with less.prems obtain c cs where t: "t = c # cs" and cs: "contains ''Yahweh'' cs"
      by (cases t) auto
    from t have "length cs < length t" by simp
    from less.hyps[OF this cs] have "CHR ''G'' \<in> set (replace ''Yahweh'' ''God'' cs)" .
    moreover from False t have "replace ''Yahweh'' ''God'' t = c # replace ''Yahweh'' ''God'' cs"
      by (simp add: replace_Cons)
    ultimately show ?thesis by simp
  qed
qed

lemma filter_tokens_append:
  "filter_tokens stop (xs @ ys) = filter_tokens stop xs @ filter_tokens stop ys"
  by (induction xs) simp_all

text \<open>
  C7: with stopwords that have no capital G or Y (nltk's English stopwords are lower-case), a
  token containing \<open>Yahweh\<close> is preprocessed to the same token as the one obtained from it by
  replacing \<open>Yahweh\<close> with \<open>God\<close>, alone or inside a passage, so both passages get the same vector.
\<close>

theorem Yahweh_vectorized_as_God:
  assumes stop: "\<forall>s\<in>stop. CHR ''G'' \<notin> set s \<and> CHR ''Y'' \<notin> set s"
    and t: "contains ''Yahweh'' t"
  shows "filter_tokens stop [t] = [replace ''Yahweh'' ''God'' t]
       \<and> filter_tokens stop [replace ''Yahweh'' ''God'' t] = [replace ''Yahweh'' ''God'' t]
       \<and> filter_tokens stop (xs @ t # ys)
           = filter_tokens stop (xs @ replace ''Yahweh'' ''God'' t # ys)
       \<and> convert_verse g (p\<lparr>tokenized_text := Some (filter_tokens stop (xs @ t # ys))\<rparr>)
           = convert_verse g
               (p\<lparr>tokenized_text :=
                    Some (filter_tokens stop (xs @ replace ''Yahweh'' ''God'' t # ys))\<rparr>)"
proof -
  let ?t' = "replace ''Yahweh'' ''God'' t"
  from contains_Yahweh_has_Y[OF t] stop have t_kept: "t \<notin> stop" by blast
  from replace_Yahweh_has_G[OF t] stop have t'_kept: "?t' \<notin> stop" by blast
  from t_kept t have one: "filter_tokens stop [t] = [?t']" by simp
  from t'_kept have other: "filter_tokens stop [?t'] = [?t']"
    by (simp add: replace_idem)
  have "filter_tokens stop (xs @ [t] @ ys) = filter_tokens stop (xs @ [?t'] @ ys)"
    by (simp only: filter_tokens_append one other)
  then have ctx: "filter_tokens stop (xs @ t # ys) = filter_tokens stop (xs @ ?t' # ys)"
    by simp
  from one other ctx show ?thesis by simp
qed

theorem Yahweh_vectorized_as_God_witness:
  "filter_tokens {''the'', ''is''} [''Yahwehs''] = [''Gods'']
   \<and> filter_tokens {''the'', ''is''} [''Gods''] = [''Gods'']
   \<and> filter_tokens {''the'', ''is''} [''the'', ''Yahwehs'', ''earth'']
       = filter_tokens {''the'', ''is''} [''the'', ''Gods'', ''earth'']"
proof -
  have stop: "\<forall>s\<in>{''the'', ''is''}. CHR ''G'' \<notin> set s \<and> CHR ''Y'' \<notin> set s"
    by simp
  have t: "contains ''Yahweh'' ''Yahwehs''" by simp
  have r: "replace ''Yahweh'' ''God'' ''Yahwehs'' = ''Gods''"
    by (simp add: replace_Yahweh_prefix replace_Cons replace_Nil)
  from Yahweh_vectorized_as_God[OF stop t, of "[''the'']" "[''earth'']"] r
  show ?thesis by simp
qed

section \<open>Properties of the build\<close>

lemma length_tokenize_data: "length (tokenize_data tok stop vd) = length vd"
  by (simp add: tokenize_data_def)

lemma tokenize_data_nth:
  "i < length vd \<Longrightarrow>
   tokenize_data tok stop vd ! i =
     (vd ! i)\<lparr>tokenized_text :=
        Some (filter_tokens stop (tok (filter (\<lambda>ch. ch \<notin> exclude) (verse_text (vd ! i)))))\<rparr>"
  by (simp add: tokenize_data_def tokenize_verse_def)

lemma convert_to_glove_vectors_Inr:
  "convert_to_glove_vectors g vd = Inr out \<Longrightarrow>
   list_all2 (\<lambda>p p'. \<exists>vec. p' = p\<lparr>vector := Some vec\<rparr>) vd out"
proof (induction vd arbitrary: out)
  case Nil
  then show ?case by simp
next
  case (Cons p vd)
  from Cons.prems obtain p' ps where p': "convert_verse g p = Inr p'"
    and ps: "convert_to_glove_vectors g vd = Inr ps" and out: "out = p' # ps"
    by (auto split: sum.splits)
  from p' have "\<exists>vec. p' = p\<lparr>vector := Some vec\<rparr>"
    by (auto simp: convert_verse_def split: option.splits sum.splits)
  with Cons.IH[OF ps] out show ?case by simp
qed

lemma vectors_of_Inr:
  "vectors_of ps = Inr X \<Longrightarrow> list_all2 (\<lambda>p v. vector p = Some v) ps X"
proof (induction ps arbitrary: X)
  case Nil
  then show ?case by simp
next
  case (Cons p ps)
  from Cons.prems obtain v vs where "vector p = Some v" "vectors_of ps = Inr vs" "X = v # vs"
    by (auto split: option.splits sum.splits)
  with Cons.IH show ?case by simp
qed

lemma cosine_similarity_Inr:
  "cosine_similarity X = Inr m \<Longrightarrow> m = map (\<lambda>u. map (\<lambda>v. cosine u v) X) X"
  by (auto simp: cosine_similarity_def split: list.splits if_splits)

lemma dot_commute: "dot u v = dot v u"
proof -
  have "map2 (*) u v = map2 (*) v u"
  proof (induction u arbitrary: v)
    case Nil
    show ?case by simp
  next
    case (Cons a u)
    show ?case by (cases v) (simp_all add: Cons.IH mult.commute)
  qed
  then show ?thesis by (simp only: dot_def)
qed

lemma cosine_commute: "cosine u v = cosine v u"
  by (auto simp: cosine_def dot_commute[of u v] mult.commute)

lemma cosine_matrix_nth:
  "i < length X \<Longrightarrow> j < length X \<Longrightarrow>
   map (\<lambda>u. map (\<lambda>v. cosine u v) X) X ! i ! j = cosine (X ! i) (X ! j)"
  by simp

lemma Similarity_init_cases:
  assumes "Similarity_init env testing = Inr st"
  shows "(testing \<and>
            st = \<lparr>verse_data = flatten_verses (bible_data env),
                  bible_verses = flatten_verses (bible_data env),
                  sim_matrix = replicate (length (flatten_verses (bible_data env)))
                                 (replicate (length (flatten_verses (bible_data env))) 0)\<rparr>)
       \<or> (\<not> testing \<and>
            (\<exists>converted X.
               convert_to_glove_vectors (glove_words env)
                 (tokenize_data (word_tokenize env) (stopwords_list env)
                    (flatten_verses (bible_data env))) = Inr converted
               \<and> vectors_of converted = Inr X
               \<and> st = \<lparr>verse_data = converted,
                       bible_verses = flatten_verses (bible_data env),
                       sim_matrix = map (\<lambda>u. map (\<lambda>v. cosine u v) X) X\<rparr>))"
proof (cases testing)
  case True
  with assms show ?thesis
    by (auto simp: Similarity_init_def Let_def split: if_splits)
next
  case False
  with assms obtain converted X m where
    c: "convert_to_glove_vectors (glove_words env)
          (tokenize_data (word_tokenize env) (stopwords_list env)
             (flatten_verses (bible_data env))) = Inr converted"
    and x: "vectors_of converted = Inr X"
    and m: "cosine_similarity X = Inr m"
    and st: "st = \<lparr>verse_data = converted, bible_verses = flatten_verses (bible_data env),
                   sim_matrix = m\<rparr>"
    by (auto simp: Similarity_init_def Let_def split: if_splits option.splits sum.splits)
  from cosine_similarity_Inr[OF m] c x st False show ?thesis by blast
qed

lemma Similarity_init_well_formed:
  assumes "Similarity_init env testing = Inr st"
  shows "well_formed st"
  using Similarity_init_cases[OF assms]
proof (elim disjE conjE exE)
  assume "st = \<lparr>verse_data = flatten_verses (bible_data env),
                 bible_verses = flatten_verses (bible_data env),
                 sim_matrix = replicate (length (flatten_verses (bible_data env)))
                                (replicate (length (flatten_verses (bible_data env))) 0)\<rparr>"
  then show ?thesis by (simp add: well_formed_def)
next
  fix converted X
  assume c: "convert_to_glove_vectors (glove_words env)
          (tokenize_data (word_tokenize env) (stopwords_list env)
             (flatten_verses (bible_data env))) = Inr converted"
    and x: "vectors_of converted = Inr X"
    and st: "st = \<lparr>verse_data = converted, bible_verses = flatten_verses (bible_data env),
                   sim_matrix = map (\<lambda>u. map (\<lambda>v. cosine u v) X) X\<rparr>"
  from list_all2_lengthD[OF convert_to_glove_vectors_Inr[OF c]]
  have "length converted = length (flatten_verses (bible_data env))"
    by (simp add: length_tokenize_data)
  moreover from list_all2_lengthD[OF vectors_of_Inr[OF x]] have "length X = length converted"
    by simp
  ultimately show ?thesis using st by (simp add: well_formed_def)
qed

lemma vectors_of_total:
  assumes "\<forall>p\<in>set ps. \<exists>v. vector p = Some v \<and> length v = n"
  shows "\<exists>X. vectors_of ps = Inr X \<and> length X = length ps \<and> (\<forall>v\<in>set X. length v = n)"
  using assms
proof (induction ps)
  case Nil
  show ?case by simp
next
  case (Cons p ps)
  from Cons.prems obtain v where "vector p = Some v" "length v = n" by auto
  moreover from Cons obtain X where "vectors_of ps = Inr X" "length X = length ps"
    "\<forall>v\<in>set X. length v = n" by auto
  ultimately show ?case by simp
qed

lemma cosine_similarity_total:
  assumes "X \<noteq> []" and "\<forall>v\<in>set X. length v = n"
  shows "cosine_similarity X = Inr (map (\<lambda>u. map (\<lambda>v. cosine u v) X) X)"
proof -
  from assms(1) obtain x0 xs where X: "X = x0 # xs" by (cases X) auto
  with assms(2) have "list_all (\<lambda>v. length v = length x0) X"
    by (simp add: list_all_iff)
  with X show ?thesis by (simp add: cosine_similarity_def)
qed

lemma keys_differ_after_update:
  assumes "tokenized_text p = None" and "tokenized_text p' \<noteq> None"
  shows "keys p' \<noteq> keys p"
proof -
  from assms(2) have "''tokenized_text'' \<in> keys p'" by (auto simp: keys_def)
  moreover from assms(1) have "''tokenized_text'' \<notin> keys p"
    by (auto simp: keys_def split: option.splits)
  ultimately show ?thesis by blast
qed

lemma Similarity_init_succeeds:
  assumes files: "bible_file_ok env" "glove_file_ok env"
    and nonempty: "flatten_verses (bible_data env) \<noteq> []"
    and fresh: "tokenized_text (hd (flatten_verses (bible_data env))) = None"
    and table: "\<forall>w v. glove_words env w = Some v \<longrightarrow> length v = 200"
  shows "\<exists>st. Similarity_init env False = Inr st"
proof -
  let ?vd = "flatten_verses (bible_data env)"
  let ?tok = "tokenize_data (word_tokenize env) (stopwords_list env) ?vd"
  from nonempty obtain v0 vs where vd: "?vd = v0 # vs" by (cases ?vd) auto
  with fresh have v0: "tokenized_text v0 = None" by simp
  from vd obtain t0 ts where tok: "?tok = t0 # ts" and t0: "tokenized_text t0 \<noteq> None"
    by (simp add: tokenize_data_def tokenize_verse_def)
  have a1: "assert_keys_differ ?tok ?vd = None"
  proof -
    have "keys t0 \<noteq> keys v0" by (rule keys_differ_after_update[OF v0 t0])
    then show ?thesis unfolding assert_keys_differ_def tok by (simp add: vd)
  qed
  from convert_to_glove_vectors_shape[OF table
      tokenize_data_populates[of "word_tokenize env" "stopwords_list env" ?vd]]
  obtain converted where conv: "convert_to_glove_vectors (glove_words env) ?tok = Inr converted"
    and shape: "list_all2 (\<lambda>p p'. \<exists>toks vec. tokenized_text p = Some toks
                   \<and> p' = p\<lparr>vector := Some vec\<rparr> \<and> length vec = MAX_LEN * 200
                   \<and> vec = concat (map (token_vector (glove_words env)) (take MAX_LEN toks))
                            @ replicate (200 * (MAX_LEN - length toks)) 0) ?tok converted"
    by blast
  have rel: "list_all2 (\<lambda>p p'. \<exists>vec. p' = p\<lparr>vector := Some vec\<rparr> \<and> length vec = 4800)
                ?tok converted"
    by (rule list_all2_mono[OF shape]) (auto simp: MAX_LEN_def)
  from rel tok obtain c0 cs where converted: "converted = c0 # cs"
    and c0: "\<exists>vec. c0 = t0\<lparr>vector := Some vec\<rparr>"
    by (auto simp: list_all2_Cons1)
  from c0 t0 have "tokenized_text c0 \<noteq> None" by auto
  from keys_differ_after_update[OF v0 this]
  have a2: "assert_keys_differ converted ?vd = None"
    by (simp add: assert_keys_differ_def converted vd)
  have "\<forall>p\<in>set converted. \<exists>v. vector p = Some v \<and> length v = 4800"
  proof
    fix p
    assume "p \<in> set converted"
    then obtain i where i: "i < length converted" and p: "converted ! i = p"
      by (auto simp: in_set_conv_nth)
    from rel i obtain vec where "converted ! i = (?tok ! i)\<lparr>vector := Some vec\<rparr>"
      and "length vec = 4800"
      by (auto simp: list_all2_conv_all_nth)
    with p have "vector p = Some vec \<and> length vec = 4800" by auto
    then show "\<exists>v. vector p = Some v \<and> length v = 4800" ..
  qed
  from vectors_of_total[OF this]
  obtain X where X: "vectors_of converted = Inr X" and lenX: "length X = length converted"
    and lens: "\<forall>v\<in>set X. length v = 4800" by blast
  from lenX converted have "X \<noteq> []" by auto
  from cosine_similarity_total[OF this lens]
  have "cosine_similarity X = Inr (map (\<lambda>u. map (\<lambda>v. cosine u v) X) X)" .
  with files a1 conv a2 X show ?thesis
    by (simp add: Similarity_init_def Let_def)
qed

text \<open>
  C8: the similarity matrix of every index the constructor builds is symmetric: entries
  \<open>(i, j)\<close> and \<open>(j, i)\<close> are equal for all indices in range, in testing mode (all zeros) and
  otherwise (cosine similarities, over the reals).
\<close>

theorem sim_matrix_symmetric:
  assumes "Similarity_init env testing = Inr st"
    and "i < length (verse_data st)" and "j < length (verse_data st)"
  shows "sim_matrix st ! i ! j = sim_matrix st ! j ! i"
  using Similarity_init_cases[OF assms(1)]
proof (elim disjE conjE exE)
  assume "st = \<lparr>verse_data = flatten_verses (bible_data env),
                 bible_verses = flatten_verses (bible_data env),
                 sim_matrix = replicate (length (flatten_verses (bible_data env)))
                                (replicate (length (flatten_verses (bible_data env))) 0)\<rparr>"
  with assms(2,3) show ?thesis by simp
next
  fix converted X
  assume x: "vectors_of converted = Inr X"
    and st: "st = \<lparr>verse_data = converted, bible_verses = flatten_verses (bible_data env),
                   sim_matrix = map (\<lambda>u. map (\<lambda>v. cosine u v) X) X\<rparr>"
  from list_all2_lengthD[OF vectors_of_Inr[OF x]] st assms(2,3)
  have "i < length X" "j < length X" by simp_all
  then have "sim_matrix st ! i ! j = cosine (X ! i) (X ! j)"
    and "sim_matrix st ! j ! i = cosine (X ! j) (X ! i)"
    unfolding st by simp_all
  then show ?thesis by (simp add: cosine_commute)
qed

lemma example_env_flatten: "flatten_verses (bible_data example_env) = example_verses"
  by (simp add: example_env_def flatten_verses_def example_verses_def)

lemma example_glove_dim: "\<forall>w v. example_glove w = Some v \<longrightarrow> length v = 200"
  by (simp add: example_glove_def)

lemma example_env_builds: "\<exists>st. Similarity_init example_env False = Inr st"
proof (rule Similarity_init_succeeds)
  show "bible_file_ok example_env" "glove_file_ok example_env"
    by (simp_all add: example_env_def)
  show "flatten_verses (bible_data example_env) \<noteq> []"
    by (simp add: example_env_flatten example_verses_def)
  show "tokenized_text (hd (flatten_verses (bible_data example_env))) = None"
    by (simp add: example_env_flatten example_verses_def mk_passage_def)
  show "\<forall>w v. glove_words example_env w = Some v \<longrightarrow> length v = 200"
    using example_glove_dim by (simp add: example_env_def)
qed

lemma tokenize_data_keeps_text:
  "map verse_text (tokenize_data tok stop vd) = map verse_text vd"
  "map verse (tokenize_data tok stop vd) = map verse vd"
  by (simp_all add: tokenize_data_def tokenize_verse_def)

lemma built_passage:
  assumes c: "convert_to_glove_vectors g (tokenize_data tok stop vd) = Inr converted"
    and i: "i < length converted"
  shows "i < length vd"
    and "verse (converted ! i) = verse (vd ! i)"
    and "verse_text (converted ! i) = verse_text (vd ! i)"
    and "tokenized_text (converted ! i) =
           Some (filter_tokens stop (tok (filter (\<lambda>ch. ch \<notin> exclude) (verse_text (vd ! i)))))"
proof -
  note rel = convert_to_glove_vectors_Inr[OF c]
  from list_all2_lengthD[OF rel] i show lt: "i < length vd"
    by (simp add: length_tokenize_data)
  from rel i obtain vec where "converted ! i = (tokenize_data tok stop vd ! i)\<lparr>vector := Some vec\<rparr>"
    by (auto simp: list_all2_conv_all_nth)
  then have eq: "converted ! i =
      (vd ! i)\<lparr>tokenized_text :=
                  Some (filter_tokens stop (tok (filter (\<lambda>ch. ch \<notin> exclude) (verse_text (vd ! i))))),
               vector := Some vec\<rparr>"
    by (simp add: tokenize_data_nth[OF lt])
  show "verse (converted ! i) = verse (vd ! i)" by (simp add: eq)
  show "verse_text (converted ! i) = verse_text (vd ! i)" by (simp add: eq)
  show "tokenized_text (converted ! i) =
           Some (filter_tokens stop (tok (filter (\<lambda>ch. ch \<notin> exclude) (verse_text (vd ! i)))))"
    by (simp add: eq)
qed

text \<open>
  C9: after the build, \<open>bible_verses\<close> and \<open>verse_data\<close> have the same length and agree at every
  index on \<open>verse\<close> and \<open>text\<close>; \<open>bible_verses\<close> is the corpus as read. Outside testing mode
  every working record has its \<open>tokenized_text\<close>, computed from that unchanged text; \<open>tokenize_data\<close>
  sets \<open>tokenized_text\<close> on every record and changes no \<open>text\<close>.
\<close>

theorem collections_describe_same_passages:
  assumes "Similarity_init env testing = Inr st"
  shows "length (bible_verses st) = length (verse_data st)
       \<and> (\<forall>i<length (verse_data st).
             verse (bible_verses st ! i) = verse (verse_data st ! i)
             \<and> verse_text (bible_verses st ! i) = verse_text (verse_data st ! i))
       \<and> bible_verses st = flatten_verses (bible_data env)
       \<and> (\<not> testing \<longrightarrow>
            (\<forall>i<length (verse_data st).
               tokenized_text (verse_data st ! i) =
                 Some (filter_tokens (stopwords_list env)
                         (word_tokenize env
                            (filter (\<lambda>ch. ch \<notin> exclude) (verse_text (bible_verses st ! i)))))))
       \<and> map verse_text (tokenize_data tok stop vd) = map verse_text vd
       \<and> (\<forall>p\<in>set (tokenize_data tok stop vd). tokenized_text p \<noteq> None)"
proof -
  have len: "length (bible_verses st) = length (verse_data st)"
    using Similarity_init_well_formed[OF assms] by (simp add: well_formed_def)
  have main: "(\<forall>i<length (verse_data st).
             verse (bible_verses st ! i) = verse (verse_data st ! i)
             \<and> verse_text (bible_verses st ! i) = verse_text (verse_data st ! i))
       \<and> bible_verses st = flatten_verses (bible_data env)
       \<and> (\<not> testing \<longrightarrow>
            (\<forall>i<length (verse_data st).
               tokenized_text (verse_data st ! i) =
                 Some (filter_tokens (stopwords_list env)
                         (word_tokenize env
                            (filter (\<lambda>ch. ch \<notin> exclude) (verse_text (bible_verses st ! i)))))))"
    using Similarity_init_cases[OF assms]
  proof (elim disjE conjE exE)
    assume "testing"
      and "st = \<lparr>verse_data = flatten_verses (bible_data env),
                 bible_verses = flatten_verses (bible_data env),
                 sim_matrix = replicate (length (flatten_verses (bible_data env)))
                                (replicate (length (flatten_verses (bible_data env))) 0)\<rparr>"
    then show ?thesis by simp
  next
    fix converted X
    assume c: "convert_to_glove_vectors (glove_words env)
          (tokenize_data (word_tokenize env) (stopwords_list env)
             (flatten_verses (bible_data env))) = Inr converted"
      and st: "st = \<lparr>verse_data = converted, bible_verses = flatten_verses (bible_data env),
                   sim_matrix = map (\<lambda>u. map (\<lambda>v. cosine u v) X) X\<rparr>"
    from st have vd: "verse_data st = converted"
      and bv: "bible_verses st = flatten_verses (bible_data env)" by simp_all
    show ?thesis unfolding vd bv using built_passage(2,3,4)[OF c] by simp
  qed
  from len main tokenize_data_keeps_text(1)[of tok stop vd] tokenize_data_populates[of tok stop vd]
  show ?thesis by blast
qed

theorem collections_describe_same_passages_witness:
  "\<exists>st. Similarity_init example_env False = Inr st
        \<and> length (bible_verses st) = length (verse_data st)
        \<and> length (verse_data st) = 4
        \<and> verse (bible_verses st ! 2) = verse (verse_data st ! 2)
        \<and> verse_text (bible_verses st ! 2) = verse_text (verse_data st ! 2)
        \<and> bible_verses st = example_verses
        \<and> tokenized_text (verse_data st ! 2) \<noteq> None"
proof -
  from example_env_builds obtain st where st: "Similarity_init example_env False = Inr st" ..
  note facts = collections_describe_same_passages[OF st, of "\<lambda>s. [s]" "{}" "[]"]
  from facts have bv: "bible_verses st = example_verses"
    by (simp add: example_env_flatten)
  from facts have len: "length (bible_verses st) = length (verse_data st)" by blast
  with bv have n: "length (verse_data st) = 4" by (simp add: example_verses_def)
  then have lt: "2 < length (verse_data st)" by simp
  from facts have pt: "\<forall>i<length (verse_data st).
             verse (bible_verses st ! i) = verse (verse_data st ! i)
             \<and> verse_text (bible_verses st ! i) = verse_text (verse_data st ! i)"
    by blast
  from facts have tk: "\<forall>i<length (verse_data st). tokenized_text (verse_data st ! i) =
                 Some (filter_tokens (stopwords_list example_env)
                         (word_tokenize example_env
                            (filter (\<lambda>ch. ch \<notin> exclude) (verse_text (bible_verses st ! i)))))"
    by blast
  from pt[rule_format, OF lt] have same: "verse (bible_verses st ! 2) = verse (verse_data st ! 2)"
    "verse_text (bible_verses st ! 2) = verse_text (verse_data st ! 2)"
    by blast+
  from tk[rule_format, OF lt] have "tokenized_text (verse_data st ! 2) \<noteq> None"
    by (simp only: option.distinct not_False_eq_True)
  with st len n bv same show ?thesis by blast
qed

subsection \<open>A build with similarities that are not zero\<close>

lemma build_vector:
  assumes init: "Similarity_init env False = Inr st"
    and table: "\<forall>w v. glove_words env w = Some v \<longrightarrow> length v = 200"
    and i: "i < length (verse_data st)"
    and toks: "toks = filter_tokens (stopwords_list env)
                        (word_tokenize env
                           (filter (\<lambda>ch. ch \<notin> exclude) (verse_text (bible_verses st ! i))))"
  shows "vector (verse_data st ! i) =
           Some (concat (map (token_vector (glove_words env)) (take MAX_LEN toks))
                 @ replicate (200 * (MAX_LEN - length toks)) 0)"
  using Similarity_init_cases[OF init]
proof (elim disjE conjE exE)
  assume "False"
  then show ?thesis ..
next
  fix converted X
  assume c: "convert_to_glove_vectors (glove_words env)
          (tokenize_data (word_tokenize env) (stopwords_list env)
             (flatten_verses (bible_data env))) = Inr converted"
    and st: "st = \<lparr>verse_data = converted, bible_verses = flatten_verses (bible_data env),
                   sim_matrix = map (\<lambda>u. map (\<lambda>v. cosine u v) X) X\<rparr>"
  let ?vd = "flatten_verses (bible_data env)"
  let ?tok = "tokenize_data (word_tokenize env) (stopwords_list env) ?vd"
  from st i have ic: "i < length converted" by simp
  with convert_to_glove_vectors_nth(1)[OF c] have it: "i < length ?tok" by simp
  then have iv: "i < length ?vd" by (simp add: length_tokenize_data)
  from st toks have tk: "tokenized_text (?tok ! i) = Some toks"
    by (simp add: tokenize_data_nth[OF iv])
  from convert_verse_shape[OF table tk]
  obtain vec where "convert_verse (glove_words env) (?tok ! i) = Inr ((?tok ! i)\<lparr>vector := Some vec\<rparr>)"
    and vec: "vec = concat (map (token_vector (glove_words env)) (take MAX_LEN toks))
                   @ replicate (200 * (MAX_LEN - length toks)) 0"
    by blast
  with convert_to_glove_vectors_nth(2)[OF c it]
  have "converted ! i = (?tok ! i)\<lparr>vector := Some vec\<rparr>" by simp
  then have "vector (converted ! i) = Some vec" by simp
  with st vec show ?thesis by simp
qed

lemma build_matrix_entry:
  assumes init: "Similarity_init env False = Inr st"
    and i: "i < length (verse_data st)" and j: "j < length (verse_data st)"
    and u: "vector (verse_data st ! i) = Some u" and v: "vector (verse_data st ! j) = Some v"
  shows "sim_matrix st ! i ! j = cosine u v"
  using Similarity_init_cases[OF init]
proof (elim disjE conjE exE)
  assume "False"
  then show ?thesis ..
next
  fix converted X
  assume x: "vectors_of converted = Inr X"
    and st: "st = \<lparr>verse_data = converted, bible_verses = flatten_verses (bible_data env),
                   sim_matrix = map (\<lambda>u. map (\<lambda>v. cosine u v) X) X\<rparr>"
  note rel = vectors_of_Inr[OF x]
  from list_all2_lengthD[OF rel] st i j have iX: "i < length X" and jX: "j < length X"
    by simp_all
  from rel iX jX st have "vector (verse_data st ! i) = Some (X ! i)"
    and "vector (verse_data st ! j) = Some (X ! j)"
    by (simp_all add: list_all2_conv_all_nth)
  with u v have "X ! i = u" "X ! j = v" by simp_all
  with iX jX st show ?thesis by simp
qed

lemma dot_replicate_append:
  "dot (replicate n a @ u) (replicate n b @ v) = of_nat n * (a * b) + dot u v"
  by (induction n) (simp_all add: dot_def algebra_simps)

lemma dot_replicate: "dot (replicate n a) (replicate n b) = of_nat n * (a * b)"
  using dot_replicate_append[of n a "[]" b "[]"] by (simp add: dot_def)

lemma psalm_env_flatten: "flatten_verses (bible_data psalm_env) = psalm_verses"
  by (simp add: psalm_env_def flatten_verses_def)

lemma psalm_env_builds: "\<exists>st. Similarity_init psalm_env False = Inr st"
proof (rule Similarity_init_succeeds)
  show "bible_file_ok psalm_env" "glove_file_ok psalm_env"
    by (simp_all add: psalm_env_def)
  show "flatten_verses (bible_data psalm_env) \<noteq> []"
    by (simp add: psalm_env_flatten psalm_verses_def)
  show "tokenized_text (hd (flatten_verses (bible_data psalm_env))) = None"
    by (simp add: psalm_env_flatten psalm_verses_def mk_passage_def)
  show "\<forall>w v. glove_words psalm_env w = Some v \<longrightarrow> length v = 200"
    using example_glove_dim by (simp add: psalm_env_def)
qed

lemma psalm_tokens:
  "filter_tokens {''is'', ''my'', ''the'', ''i''}
     (split_words (filter (\<lambda>ch. ch \<notin> exclude) ''Yahweh made the earth.''))
     = [''God'', ''made'', ''earth'']"
  "filter_tokens {''is'', ''my'', ''the'', ''i''}
     (split_words (filter (\<lambda>ch. ch \<notin> exclude) ''God is my shepherd,''))
     = [''God'', ''shepherd'']"
  by code_simp+

lemma example_glove_vectors:
  "token_vector example_glove ''God'' = replicate 200 (1/10)"
  "token_vector example_glove ''earth'' = replicate 200 (1/5)"
  "token_vector example_glove ''made'' = replicate 200 0"
  "token_vector example_glove ''shepherd'' = replicate 200 0"
  by (simp_all add: token_vector_def get_glove_vector_def example_glove_def)

theorem sim_matrix_symmetric_witness:
  "\<exists>st. Similarity_init psalm_env False = Inr st
        \<and> length (verse_data st) = 3
        \<and> sim_matrix st ! 0 ! 1 = sim_matrix st ! 1 ! 0
        \<and> sim_matrix st ! 0 ! 1 = 2 / (sqrt 10 * sqrt 2)
        \<and> 0 < sim_matrix st ! 1 ! 0"
proof -
  from psalm_env_builds obtain st where st: "Similarity_init psalm_env False = Inr st" ..
  have table: "\<forall>w v. glove_words psalm_env w = Some v \<longrightarrow> length v = 200"
    using example_glove_dim by (simp add: psalm_env_def)
  from Similarity_init_well_formed[OF st] Similarity_init_cases[OF st]
  have n: "length (verse_data st) = 3" and bv: "bible_verses st = psalm_verses"
    by (auto simp: well_formed_def psalm_env_flatten psalm_verses_def)
  from n have i0: "0 < length (verse_data st)" and i1: "1 < length (verse_data st)"
    by simp_all
  have sw: "stopwords_list psalm_env = {''is'', ''my'', ''the'', ''i''}"
    and wt: "word_tokenize psalm_env = split_words"
    by (simp_all add: psalm_env_def)
  have text0: "verse_text (bible_verses st ! 0) = ''Yahweh made the earth.''"
    and text1: "verse_text (bible_verses st ! 1) = ''God is my shepherd,''"
    by (simp_all add: bv psalm_verses_def mk_passage_def)
  have t0: "[''God'', ''made'', ''earth''] =
      filter_tokens (stopwords_list psalm_env)
        (word_tokenize psalm_env (filter (\<lambda>ch. ch \<notin> exclude) (verse_text (bible_verses st ! 0))))"
    by (simp only: sw wt text0 psalm_tokens)
  have t1: "[''God'', ''shepherd''] =
      filter_tokens (stopwords_list psalm_env)
        (word_tokenize psalm_env (filter (\<lambda>ch. ch \<notin> exclude) (verse_text (bible_verses st ! 1))))"
    by (simp only: sw wt text1 psalm_tokens)
  have pad: "replicate 4400 (0::real) = replicate 200 0 @ replicate 4200 0"
    by (simp add: replicate_add[symmetric])
  from build_vector[OF st table i0 t0]
  have v0: "vector (verse_data st ! 0) =
      Some (replicate 200 (1/10) @ replicate 200 0 @ replicate 200 (1/5) @ replicate 4200 0)"
    by (simp add: MAX_LEN_def psalm_env_def example_glove_vectors)
  from build_vector[OF st table i1 t1]
  have v1: "vector (verse_data st ! 1) =
      Some (replicate 200 (1/10) @ replicate 200 0 @ replicate 200 0 @ replicate 4200 0)"
    by (simp add: MAX_LEN_def psalm_env_def example_glove_vectors pad)
  have "sim_matrix st ! 0 ! 1 =
      cosine (replicate 200 (1/10) @ replicate 200 0 @ replicate 200 (1/5) @ replicate 4200 0)
             (replicate 200 (1/10) @ replicate 200 0 @ replicate 200 0 @ replicate 4200 0)"
    by (rule build_matrix_entry[OF st i0 i1 v0 v1])
  also have "\<dots> = 2 / (sqrt 10 * sqrt 2)"
    by (simp add: cosine_def norm2_def dot_replicate_append dot_replicate)
  finally have entry: "sim_matrix st ! 0 ! 1 = 2 / (sqrt 10 * sqrt 2)" .
  have sym: "sim_matrix st ! 0 ! 1 = sim_matrix st ! 1 ! 0"
    by (rule sim_matrix_symmetric[OF st i0 i1])
  have "0 < 2 / (sqrt 10 * sqrt 2)" by simp
  with entry sym have "0 < sim_matrix st ! 1 ! 0" by simp
  with st n sym entry show ?thesis by blast
qed

end
